theory Spec2Isabelle
  imports Main "HOL-Library.Multiset" "HOL-Library.Sublist" "HOL-Library.List_Lexorder"
    "HOL-Library.Product_Lexorder"
begin

section \<open>The table held by the application\<close>

text \<open>
  \<^verbatim>\<open>anom_app.py\<close> keeps one pandas DataFrame per uploaded file and hands it to four
  views. A cell is a value of the column's type or the missing marker (NaN); the
  values themselves are left abstract (\<open>'v\<close>), the missing marker is \<open>None\<close>.
  A row is its index label together with its cells, in column order; every column has
  a dtype. A frame read by \<^verbatim>\<open>pd.read_csv\<close> or \<^verbatim>\<open>pd.read_excel\<close> carries the labels
  \<open>0, 1, ..., n - 1\<close> and pairwise different column names.
\<close>

type_synonym 'v cell = "'v option"

type_synonym 'v row = "nat \<times> 'v cell list"

datatype dtype = Int64 | Float64 | Int32 | Float32 | Bool | Datetime64 | Object

record 'v dataframe =
  columns :: "string list"
  dtypes :: "dtype list"
  rows :: "'v row list"

definition loaded :: "'v dataframe \<Rightarrow> bool" where
  "loaded df =
     (distinct (columns df) \<and> length (dtypes df) = length (columns df) \<and>
      list_all (\<lambda>r. length (snd r) = length (columns df)) (rows df) \<and>
      map fst (rows df) = [0..<length (rows df)])"

text \<open>The exceptions that occur: Python's own, and those of the library's readers.\<close>

datatype py_error =
  KeyError | ValueError | UnboundLocalError | UnicodeDecodeError | EmptyDataError | ParserError

section \<open>The DataFrame operations the views call\<close>

text \<open>
  The library calls are modelled by what they compute on such frames. Two rows have
  the same key when their cells agree position by position; pandas encodes every
  column by factorisation, where all missing cells of a column receive one code of
  their own, so two missing cells agree and a missing cell agrees with no value.
  That is equality of \<open>'v option\<close>.
\<close>

text \<open>\<^verbatim>\<open>Index.get_loc\<close>: the position of a column name.\<close>

fun get_loc :: "string list \<Rightarrow> string \<Rightarrow> nat option" where
  "get_loc [] c = None"
| "get_loc (x # xs) c = (if x = c then Some 0 else map_option Suc (get_loc xs c))"

text \<open>\<^verbatim>\<open>df[selected_cols]\<close>: the listed columns, in the listed order, of every row; a name
  that is no column raises \<^verbatim>\<open>KeyError\<close>.\<close>

definition take_cells :: "nat list \<Rightarrow> 'v row \<Rightarrow> 'v row" where
  "take_cells ps r = (fst r, map (\<lambda>p. snd r ! p) ps)"

definition getitem_cols :: "'v dataframe \<Rightarrow> string list \<Rightarrow> py_error + 'v dataframe" where
  "getitem_cols df cols =
     (case those (map (get_loc (columns df)) cols) of
        None \<Rightarrow> Inl KeyError
      | Some ps \<Rightarrow>
          Inr \<lparr>columns = cols, dtypes = map (\<lambda>p. dtypes df ! p) ps,
               rows = map (take_cells ps) (rows df)\<rparr>)"

text \<open>
  \<^verbatim>\<open>duplicated(keep=False)\<close>: one pass over the row keys with a hash table from a key
  to the position of its first occurrence. A key met again marks that first position
  and the current one; a new key is entered and its position marked False.
\<close>

fun duplicated_False_loop ::
  "'k list \<Rightarrow> nat \<Rightarrow> ('k \<rightharpoonup> nat) \<Rightarrow> bool list \<Rightarrow> bool list" where
  "duplicated_False_loop [] i table out = out"
| "duplicated_False_loop (v # vs) i table out =
     (case table v of
        Some k \<Rightarrow> duplicated_False_loop vs (Suc i) table (out[k := True, i := True])
      | None \<Rightarrow> duplicated_False_loop vs (Suc i) (table(v \<mapsto> i)) (out[i := False]))"

definition duplicated_False :: "'k list \<Rightarrow> bool list" where
  "duplicated_False vs =
     duplicated_False_loop vs 0 Map.empty (replicate (length vs) False)"

text \<open>
  \<^verbatim>\<open>duplicated()\<close>, that is \<^verbatim>\<open>keep='first'\<close>: one pass with the set of the keys seen so
  far; a row is marked when its key was seen before.
\<close>

fun duplicated_first_loop :: "'k list \<Rightarrow> 'k set \<Rightarrow> bool list" where
  "duplicated_first_loop [] seen = []"
| "duplicated_first_loop (v # vs) seen =
     (v \<in> seen) # duplicated_first_loop vs (insert v seen)"

definition duplicated_first :: "'k list \<Rightarrow> bool list" where
  "duplicated_first vs = duplicated_first_loop vs {}"

text \<open>
  \<^verbatim>\<open>DataFrame.duplicated\<close> looks at all columns of the frame: the key of a row is the list
  of its cells. For a frame that is empty (no rows, or no columns) it answers the empty
  mask at once, before any key is looked at.
\<close>

definition row_keys :: "'v dataframe \<Rightarrow> 'v cell list list" where
  "row_keys df = map snd (rows df)"

definition df_empty :: "'v dataframe \<Rightarrow> bool" where
  "df_empty df = (rows df = [] \<or> columns df = [])"

definition df_duplicated :: "'v dataframe \<Rightarrow> bool list" where
  "df_duplicated df = (if df_empty df then [] else duplicated_first (row_keys df))"

definition df_duplicated_keep_False :: "'v dataframe \<Rightarrow> bool list" where
  "df_duplicated_keep_False df = (if df_empty df then [] else duplicated_False (row_keys df))"

text \<open>\<^verbatim>\<open>df[mask]\<close> with a boolean mask on the frame's own index, and \<^verbatim>\<open>~mask\<close>.\<close>

definition getitem_mask :: "'v dataframe \<Rightarrow> bool list \<Rightarrow> 'v dataframe" where
  "getitem_mask df msk = df\<lparr>rows := map fst (filter snd (zip (rows df) msk))\<rparr>"

definition invert :: "bool list \<Rightarrow> bool list" where
  "invert msk = map Not msk"

text \<open>\<^verbatim>\<open>mask.sum()\<close>: the number of True entries.\<close>

definition mask_sum :: "bool list \<Rightarrow> nat" where
  "mask_sum msk = length (filter id msk)"

section \<open>The classification of \<^verbatim>\<open>duplicate_analysis\<close>\<close>

text \<open>
  Lines 170 to 172:
  \<^verbatim>\<open>
  is_duplicate = df[selected_cols].duplicated(keep=False)
  unique_rows = df[~is_duplicate].copy()
  duplicate_rows = df[is_duplicate].copy()
  \<close>
\<close>

definition is_duplicate :: "'v dataframe \<Rightarrow> string list \<Rightarrow> py_error + bool list" where
  "is_duplicate df selected_cols =
     (case getitem_cols df selected_cols of
        Inl e \<Rightarrow> Inl e
      | Inr sel \<Rightarrow> Inr (df_duplicated_keep_False sel))"

definition unique_rows :: "'v dataframe \<Rightarrow> string list \<Rightarrow> py_error + 'v dataframe" where
  "unique_rows df selected_cols =
     (case is_duplicate df selected_cols of
        Inl e \<Rightarrow> Inl e
      | Inr m \<Rightarrow> Inr (getitem_mask df (invert m)))"

definition duplicate_rows :: "'v dataframe \<Rightarrow> string list \<Rightarrow> py_error + 'v dataframe" where
  "duplicate_rows df selected_cols =
     (case is_duplicate df selected_cols of
        Inl e \<Rightarrow> Inl e
      | Inr m \<Rightarrow> Inr (getitem_mask df m))"

section \<open>The summary of the duplicate groups\<close>

text \<open>
  Lines 200 and 201:
  \<^verbatim>\<open>
  duplicate_groups = df[is_duplicate][selected_cols].groupby(selected_cols).size().reset_index(name='count')
  duplicate_groups = duplicate_groups.sort_values('count', ascending=False)
  \<close>
  \<^verbatim>\<open>groupby\<close> is called with its defaults: \<^verbatim>\<open>dropna=True\<close> leaves out every row whose key
  has a missing cell, \<^verbatim>\<open>sort=True\<close> orders the groups by their key. \<^verbatim>\<open>size()\<close> counts
  the rows of each group.
\<close>

definition groupby_size :: "('v::linorder) cell list list \<Rightarrow> ('v list \<times> nat) list" where
  "groupby_size ks =
     (let vs = List.map_filter those ks
      in map (\<lambda>g. (g, count_list vs g)) (sort (remdups vs)))"

record 'v summary =
  summary_columns :: "string list"
  summary_rows :: "('v list \<times> nat) list"

text \<open>\<^verbatim>\<open>reset_index(name='count')\<close> turns the group keys into columns beside the new column
  \<^verbatim>\<open>count\<close>; it raises \<^verbatim>\<open>ValueError\<close> when a key column already has that name.\<close>

definition reset_index_count ::
  "string list \<Rightarrow> ('v list \<times> nat) list \<Rightarrow> py_error + 'v summary" where
  "reset_index_count names gs =
     (if ''count'' \<in> set names then Inl ValueError
      else Inr \<lparr>summary_columns = names @ [''count''], summary_rows = gs\<rparr>)"

text \<open>
  \<^verbatim>\<open>sort_values('count', ascending=False)\<close> orders the groups by falling count. Its default
  sorting algorithm is not stable: in which order groups of equal count come out is the
  library's choice. That choice is the parameter \<open>tie\<close>, a rank of the group keys: among
  groups of equal count the one of lower rank comes first. Every order of the ties is
  the order of some rank.
\<close>

fun insert_desc ::
  "('k \<Rightarrow> nat) \<Rightarrow> 'k \<times> nat \<Rightarrow> ('k \<times> nat) list \<Rightarrow> ('k \<times> nat) list" where
  "insert_desc tie g [] = [g]"
| "insert_desc tie g (h # hs) =
     (if snd h < snd g \<or> (snd h = snd g \<and> tie (fst g) \<le> tie (fst h)) then g # h # hs
      else h # insert_desc tie g hs)"

definition sort_values_count_desc :: "('v list \<Rightarrow> nat) \<Rightarrow> 'v summary \<Rightarrow> 'v summary" where
  "sort_values_count_desc tie s =
     s\<lparr>summary_rows := foldr (insert_desc tie) (summary_rows s) []\<rparr>"

definition duplicate_groups ::
  "('v list \<Rightarrow> nat) \<Rightarrow> ('v::linorder) dataframe \<Rightarrow> string list \<Rightarrow> py_error + 'v summary" where
  "duplicate_groups tie df selected_cols =
     (case duplicate_rows df selected_cols of
        Inl e \<Rightarrow> Inl e
      | Inr d \<Rightarrow>
          (case getitem_cols d selected_cols of
             Inl e \<Rightarrow> Inl e
           | Inr dsel \<Rightarrow>
               (case reset_index_count selected_cols (groupby_size (row_keys dsel)) of
                  Inl e \<Rightarrow> Inl e
                | Inr g \<Rightarrow> Inr (sort_values_count_desc tie g))))"

section \<open>What the views show\<close>

text \<open>
  The Streamlit calls of a view are the list of what it puts on the page, in order.
  Headers, captions and chart styling are left out; a message is named by a
  constructor, a metric by its label.
\<close>

datatype metric =
  Nombre_de_lignes | Nombre_de_colonnes | Valeurs_manquantes | Lignes_dupliquees
| Nombre_total_de_doublons
| Total_des_lignes | Lignes_avec_combinaisons_uniques | Lignes_avec_combinaisons_dupliquees

datatype chart_type = Histogramme | Box_Plot | Violin_Plot | Bar_Chart | Pie_Chart

datatype message = Erreur_encodage py_error | Erreur_chargement py_error

type_synonym 'v sheet = "string \<times> string list \<times> 'v cell list list"

datatype 'v ui =
  Warning_select_column
| Metric metric nat
| Show_rows "'v dataframe"
| Info_first_100 nat
| Show_groups "'v summary"
| Histogram_of_counts "nat list"
| Write_file string nat
| Write_no_unique
| Write_no_duplicate
| Download_button string "(string \<times> 'v sheet) list"
| Info_contenu
| Success_prepared
| Warning_doublons nat
| Success_no_doublon
| Warning_empty_frame
| Select_graph_type "chart_type list"
| Error_loading message
| Success_loaded
| Info_upload

text \<open>The state of the widgets in one run of the script, and the clock.\<close>

record widgets =
  multiselect :: "string list"
  unique_filename_input :: string
  duplicate_filename_input :: string
  executer :: bool
  telecharger_zip :: bool
  selected_col :: string
  timestamp :: string

definition head :: "nat \<Rightarrow> 'v dataframe \<Rightarrow> 'v dataframe" where
  "head n df = df\<lparr>rows := take n (rows df)\<rparr>"

text \<open>\<^verbatim>\<open>df.isna().sum().sum()\<close>\<close>

definition isna_sum :: "'v dataframe \<Rightarrow> nat" where
  "isna_sum df = sum_list (map (\<lambda>r. length (filter (\<lambda>c. c = None) (snd r))) (rows df))"

subsection \<open>\<^verbatim>\<open>data_overview\<close> and \<^verbatim>\<open>anomaly_analysis\<close>\<close>

text \<open>
  Both views count duplicates with \<^verbatim>\<open>df.duplicated().sum()\<close> (lines 60 and 110). Of
  \<^verbatim>\<open>data_overview\<close> the four metrics and the first rows are modelled, of
  \<^verbatim>\<open>anomaly_analysis\<close> the part on duplicates (lines 108 to 118).
\<close>

definition total_duplicates :: "'v dataframe \<Rightarrow> nat" where
  "total_duplicates df = mask_sum (df_duplicated df)"

definition data_overview :: "'v dataframe \<Rightarrow> 'v ui list" where
  "data_overview df =
     [Metric Nombre_de_lignes (length (rows df)),
      Metric Nombre_de_colonnes (length (columns df)),
      Metric Valeurs_manquantes (isna_sum df),
      Metric Lignes_dupliquees (mask_sum (df_duplicated df)),
      Show_rows (head 10 df)]"

definition anomaly_analysis :: "'v dataframe \<Rightarrow> 'v ui list" where
  "anomaly_analysis df =
     [Metric Nombre_total_de_doublons (total_duplicates df)] @
     (if 0 < total_duplicates df then [Warning_doublons (total_duplicates df)]
      else [Success_no_doublon])"

subsection \<open>\<^verbatim>\<open>duplicate_analysis\<close>\<close>

text \<open>The function returns tuples of three lengths; \<^verbatim>\<open>main\<close> asks for the length.\<close>

datatype 'v result =
  Tuple2 "'v dataframe option" "'v dataframe option"
| Tuple3 "'v dataframe option" "'v dataframe option" bool
| Tuple5 "'v dataframe option" "'v dataframe option" bool "string option" "string option"

fun len :: "'v result \<Rightarrow> nat" where
  "len (Tuple2 _ _) = 2"
| "len (Tuple3 _ _ _) = 3"
| "len (Tuple5 _ _ _ _ _) = 5"

definition show_first_100 :: "'v dataframe \<Rightarrow> 'v ui list" where
  "show_first_100 x =
     (if 0 < length (rows x)
      then Show_rows (head 100 x) #
           (if 100 < length (rows x) then [Info_first_100 (length (rows x))] else [])
      else [])"

definition show_groups :: "'v summary \<Rightarrow> 'v ui list" where
  "show_groups g =
     Show_groups (g\<lparr>summary_rows := take 10 (summary_rows g)\<rparr>) #
     (if 0 < length (summary_rows g) then [Histogram_of_counts (map snd (summary_rows g))]
      else [])"

definition duplicate_analysis ::
  "('v list \<Rightarrow> nat) \<Rightarrow> ('v::linorder) dataframe \<Rightarrow> widgets
     \<Rightarrow> 'v ui list \<times> (py_error + 'v result)" where
  "duplicate_analysis tie df w =
     (let selected_cols = multiselect w in
      if selected_cols = [] then ([Warning_select_column], Inr (Tuple3 None None False))
      else if executer w then
        (case unique_rows df selected_cols of
           Inl e \<Rightarrow> ([], Inl e)
         | Inr u \<Rightarrow>
             (case duplicate_rows df selected_cols of
                Inl e \<Rightarrow> ([], Inl e)
              | Inr d \<Rightarrow>
                  (let shown =
                         [Metric Total_des_lignes (length (rows df)),
                          Metric Lignes_avec_combinaisons_uniques (length (rows u)),
                          Metric Lignes_avec_combinaisons_dupliquees (length (rows d))] @
                         show_first_100 u @ show_first_100 d;
                       returned =
                         Tuple5 (Some u) (Some d) True
                           (Some (unique_filename_input w)) (Some (duplicate_filename_input w))
                   in if 0 < length (rows d)
                      then (case duplicate_groups tie df selected_cols of
                              Inl e \<Rightarrow> (shown, Inl e)
                            | Inr g \<Rightarrow> (shown @ show_groups g, Inr returned))
                      else (shown, Inr returned))))
      else ([], Inr (Tuple5 None None False None None)))"

subsection \<open>\<^verbatim>\<open>create_download_zip\<close>\<close>

definition to_excel :: "'v dataframe \<Rightarrow> string \<Rightarrow> 'v sheet" where
  "to_excel df sheet_name = (sheet_name, columns df, map snd (rows df))"

definition create_download_zip ::
  "'v dataframe option \<Rightarrow> 'v dataframe option \<Rightarrow> string \<Rightarrow> string
     \<Rightarrow> (string \<times> 'v sheet) list" where
  "create_download_zip unique_df duplicate_df unique_filename duplicate_filename =
     (case unique_df of
        None \<Rightarrow> []
      | Some u \<Rightarrow>
          if df_empty u then []
          else [(unique_filename @ ''.xlsx'', to_excel u ''Lignes_Uniques'')]) @
     (case duplicate_df of
        None \<Rightarrow> []
      | Some d \<Rightarrow>
          if df_empty d then []
          else [(duplicate_filename @ ''.xlsx'', to_excel d ''Lignes_Dupliquees'')])"

subsection \<open>\<^verbatim>\<open>visualizations\<close>\<close>

text \<open>
  Lines 248 to 250 and 306 to 353: which chart types the view offers for the column
  chosen in the select box. \<^verbatim>\<open>nunique()\<close> counts the different values of a column that
  are not missing.
\<close>

definition getitem_col :: "'v dataframe \<Rightarrow> string \<Rightarrow> py_error + dtype \<times> 'v cell list" where
  "getitem_col df c =
     (case get_loc (columns df) c of
        None \<Rightarrow> Inl KeyError
      | Some p \<Rightarrow> Inr (dtypes df ! p, map (\<lambda>r. snd r ! p) (rows df)))"

definition nunique :: "'v cell list \<Rightarrow> nat" where
  "nunique xs = length (remdups (List.map_filter (\<lambda>c. c) xs))"

fun dtype_name :: "dtype \<Rightarrow> string" where
  "dtype_name Int64 = ''int64''"
| "dtype_name Float64 = ''float64''"
| "dtype_name Int32 = ''int32''"
| "dtype_name Float32 = ''float32''"
| "dtype_name Bool = ''bool''"
| "dtype_name Datetime64 = ''datetime64[ns]''"
| "dtype_name Object = ''object''"

definition is_numeric :: "'v dataframe \<Rightarrow> string \<Rightarrow> py_error + bool" where
  "is_numeric df c =
     (case getitem_col df c of
        Inl e \<Rightarrow> Inl e
      | Inr (t, xs) \<Rightarrow> Inr (dtype_name t \<in> set [''int64'', ''float64''] \<and> 10 < nunique xs))"

definition visualizations :: "'v dataframe \<Rightarrow> widgets \<Rightarrow> 'v ui list \<times> py_error option" where
  "visualizations df w =
     (if df_empty df then ([Warning_empty_frame], None)
      else if selected_col w \<noteq> [] \<and> \<not> df_empty df then
        (case is_numeric df (selected_col w) of
           Inl e \<Rightarrow> ([], Some e)
         | Inr numeric \<Rightarrow>
             if numeric then ([Select_graph_type [Histogramme, Box_Plot, Violin_Plot]], None)
             else ([Select_graph_type [Bar_Chart, Pie_Chart]], None))
      else ([], None))"

section \<open>Loading the file\<close>

text \<open>
  The uploaded file is a byte buffer with a read position (Streamlit's
  \<^verbatim>\<open>UploadedFile\<close> is an \<^verbatim>\<open>io.BytesIO\<close>). A reader of the library is given the bytes from
  the position on; it returns a table or raises, and has moved the position by the
  number of bytes it consumed. \<^verbatim>\<open>load_data\<close> takes the two readers as parameters.
\<close>

type_synonym byte = nat

record uploaded_file =
  file_name :: string
  file_content :: "byte list"
  file_pos :: nat

datatype encoding = UTF8 | Latin1

type_synonym 'df reader = "byte list \<Rightarrow> (py_error + 'df) \<times> nat"

definition call_reader :: "'df reader \<Rightarrow> uploaded_file \<Rightarrow> (py_error + 'df) \<times> uploaded_file" where
  "call_reader reader f =
     (case reader (drop (file_pos f) (file_content f)) of
        (r, n) \<Rightarrow> (r, f\<lparr>file_pos := file_pos f + n\<rparr>))"

text \<open>\<^verbatim>\<open>uploaded_file.name.split('.')[-1].lower()\<close>\<close>

fun split_on :: "char \<Rightarrow> string \<Rightarrow> string \<Rightarrow> string list" where
  "split_on sep acc [] = [rev acc]"
| "split_on sep acc (c # cs) =
     (if c = sep then rev acc # split_on sep [] cs else split_on sep (c # acc) cs)"

definition lower :: "string \<Rightarrow> string" where
  "lower s =
     map (\<lambda>c. case map_of (zip ''ABCDEFGHIJKLMNOPQRSTUVWXYZ'' ''abcdefghijklmnopqrstuvwxyz'') c of
                 None \<Rightarrow> c
               | Some l \<Rightarrow> l) s"

definition file_extension :: "uploaded_file \<Rightarrow> string" where
  "file_extension f = lower (last (split_on CHR ''.'' [] (file_name f)))"

text \<open>
  Lines 30 to 46. Every statement stands inside the outer \<^verbatim>\<open>try\<close>, and both handlers
  return, so the function returns a pair in every case. For an extension that is
  neither \<^verbatim>\<open>xlsx\<close> nor \<^verbatim>\<open>csv\<close> the name \<^verbatim>\<open>df\<close> is unbound at the \<^verbatim>\<open>return\<close>, which the last
  handler catches. The retry of line 41 is given the same file object: its position
  is where the first attempt left it.
\<close>

definition retry_latin1 ::
  "(encoding \<Rightarrow> 'df reader) \<Rightarrow> uploaded_file
     \<Rightarrow> ('df option \<times> message option) \<times> uploaded_file" where
  "retry_latin1 read_csv f =
     (case call_reader (read_csv Latin1) f of
        (Inr df, f') \<Rightarrow> ((Some df, None), f')
      | (Inl e, f') \<Rightarrow> ((None, Some (Erreur_encodage e)), f'))"

definition handlers ::
  "(encoding \<Rightarrow> 'df reader) \<Rightarrow> (py_error + 'df) \<times> uploaded_file
     \<Rightarrow> ('df option \<times> message option) \<times> uploaded_file" where
  "handlers read_csv attempt =
     (case attempt of
        (Inr df, f') \<Rightarrow> ((Some df, None), f')
      | (Inl e, f') \<Rightarrow>
          if e = UnicodeDecodeError then retry_latin1 read_csv f'
          else ((None, Some (Erreur_chargement e)), f'))"

definition load_data ::
  "'df reader \<Rightarrow> (encoding \<Rightarrow> 'df reader) \<Rightarrow> uploaded_file
     \<Rightarrow> ('df option \<times> message option) \<times> uploaded_file" where
  "load_data read_excel read_csv f =
     (if file_extension f = ''xlsx'' then handlers read_csv (call_reader read_excel f)
      else if file_extension f = ''csv'' then handlers read_csv (call_reader (read_csv UTF8) f)
      else ((None, Some (Erreur_chargement UnboundLocalError)), f))"

text \<open>
  \<^verbatim>\<open>pd.read_csv\<close> on a buffer that fits the reader's first chunk: the reader has taken
  every byte from the position on when it returns and also when it raises. Bytes that
  are not UTF-8 raise \<^verbatim>\<open>UnicodeDecodeError\<close> under \<^verbatim>\<open>encoding='utf-8'\<close>; every byte
  sequence is Latin-1. No bytes at all raise \<^verbatim>\<open>EmptyDataError\<close> (no columns to parse).
  The CSV grammar itself is the parameter \<open>parse\<close>.
\<close>

definition continuation :: "byte \<Rightarrow> bool" where
  "continuation b = (128 \<le> b \<and> b \<le> 191)"

fun valid_utf8 :: "byte list \<Rightarrow> bool" where
  "valid_utf8 [] = True"
| "valid_utf8 [a] = (a < 128)"
| "valid_utf8 [a, b] =
     (if a < 128 then valid_utf8 [b] else 194 \<le> a \<and> a \<le> 223 \<and> continuation b)"
| "valid_utf8 [a, b, c] =
     (if a < 128 then valid_utf8 [b, c]
      else if 194 \<le> a \<and> a \<le> 223 then continuation b \<and> valid_utf8 [c]
      else 224 \<le> a \<and> a \<le> 239 \<and> (if a = 224 then 160 \<le> b else 128 \<le> b) \<and>
           (if a = 237 then b \<le> 159 else b \<le> 191) \<and> continuation c)"
| "valid_utf8 (a # b # c # d # bs) =
     (if a < 128 then valid_utf8 (b # c # d # bs)
      else if 194 \<le> a \<and> a \<le> 223 then continuation b \<and> valid_utf8 (c # d # bs)
      else if 224 \<le> a \<and> a \<le> 239 then
        (if a = 224 then 160 \<le> b else 128 \<le> b) \<and>
        (if a = 237 then b \<le> 159 else b \<le> 191) \<and> continuation c \<and> valid_utf8 (d # bs)
      else 240 \<le> a \<and> a \<le> 244 \<and> (if a = 240 then 144 \<le> b else 128 \<le> b) \<and>
           (if a = 244 then b \<le> 143 else b \<le> 191) \<and> continuation c \<and> continuation d \<and>
           valid_utf8 bs)"

definition read_csv :: "(encoding \<Rightarrow> byte list \<Rightarrow> py_error + 'df) \<Rightarrow> encoding \<Rightarrow> 'df reader" where
  "read_csv parse enc bs =
     (if enc = UTF8 \<and> \<not> valid_utf8 bs then (Inl UnicodeDecodeError, length bs)
      else if bs = [] then (Inl EmptyDataError, length bs)
      else (parse enc bs, length bs))"

section \<open>\<^verbatim>\<open>main\<close>\<close>

text \<open>
  The third tab (lines 412 to 496) takes the tuple of \<^verbatim>\<open>duplicate_analysis\<close> apart:
  five names when its length is five, two names otherwise, which raises \<^verbatim>\<open>ValueError\<close>
  on a tuple of any other length. An exception that no handler catches ends the run of
  the script; what was shown before stays on the page.
\<close>

fun fstr :: "string option \<Rightarrow> string" where
  "fstr None = ''None''"
| "fstr (Some s) = s"

definition write_file :: "'v dataframe option \<Rightarrow> string \<Rightarrow> 'v ui \<Rightarrow> 'v ui" where
  "write_file x label otherwise =
     (case x of
        None \<Rightarrow> otherwise
      | Some t \<Rightarrow> if df_empty t then otherwise else Write_file label (length (rows t)))"

definition main_tab3 ::
  "('v list \<Rightarrow> nat) \<Rightarrow> ('v::linorder) dataframe \<Rightarrow> widgets
     \<Rightarrow> 'v ui list \<times> py_error option" where
  "main_tab3 tie df w =
     (case duplicate_analysis tie df w of
        (shown, Inl e) \<Rightarrow> (shown, Some e)
      | (shown, Inr result) \<Rightarrow>
          if len result = 5 then
            (case result of
               Tuple5 u d analysis_executed uf dn \<Rightarrow>
                 if analysis_executed \<and> (u \<noteq> None \<or> d \<noteq> None) then
                   (shown @
                    [write_file u (fstr uf @ ''.xlsx'') Write_no_unique,
                     write_file d (fstr dn @ ''.xlsx'') Write_no_duplicate,
                     Download_button (''analyse_lignes_'' @ timestamp w @ ''.zip'')
                       (create_download_zip u d (fstr uf) (fstr dn)),
                     Info_contenu], None)
                 else (shown, None)
             | _ \<Rightarrow> (shown, Some ValueError))
          else
            (case result of
               Tuple2 uc dc \<Rightarrow>
                 if uc \<noteq> None \<or> dc \<noteq> None then
                   (shown @
                    [write_file uc ''Fichier des combinaisons uniques'' Write_no_unique,
                     write_file dc ''Fichier des combinaisons dupliquees'' Write_no_duplicate] @
                    (if telecharger_zip w then
                       [Download_button (''analyse_anomalies_'' @ timestamp w @ ''.zip'')
                          (create_download_zip uc dc (''analyse_anomalies_'' @ timestamp w)
                             ''lignes_dupliquees''),
                        Success_prepared]
                     else []), None)
                 else (shown, None)
             | _ \<Rightarrow> (shown, Some ValueError)))"

definition main ::
  "('v list \<Rightarrow> nat) \<Rightarrow> ('v::linorder) dataframe reader \<Rightarrow> (encoding \<Rightarrow> 'v dataframe reader)
     \<Rightarrow> uploaded_file option \<Rightarrow> widgets \<Rightarrow> 'v ui list \<times> py_error option" where
  "main tie read_excel read_csv_enc uploaded w =
     (case uploaded of
        None \<Rightarrow> ([Info_upload], None)
      | Some f \<Rightarrow>
          (case fst (load_data read_excel read_csv_enc f) of
             (_, Some error) \<Rightarrow> ([Error_loading error], None)
           | (None, None) \<Rightarrow> ([], None)
           | (Some df, None) \<Rightarrow>
               (let shown = Success_loaded # data_overview df @ anomaly_analysis df
                in case main_tab3 tie df w of
                     (shown3, Some e) \<Rightarrow> (shown @ shown3, Some e)
                   | (shown3, None) \<Rightarrow>
                       (case visualizations df w of
                          (shown4, e) \<Rightarrow> (shown @ shown3 @ shown4, e)))))"

section \<open>Example inputs\<close>

text \<open>The table of the specification's example: column \<open>A\<close> holds 1, 1, 2, 1.\<close>

definition spec_example :: "nat dataframe" where
  "spec_example =
     \<lparr>columns = [''A'', ''B''], dtypes = [Int64, Int64],
      rows = [(0, [Some 1, Some 10]), (1, [Some 1, Some 10]),
              (2, [Some 2, Some 20]), (3, [Some 1, Some 30])]\<rparr>"

text \<open>A table whose column \<open>A\<close> is missing in two rows.\<close>

definition missing_example :: "nat dataframe" where
  "missing_example =
     \<lparr>columns = [''A'', ''B''], dtypes = [Float64, Int64],
      rows = [(0, [None, Some 10]), (1, [None, Some 20]), (2, [Some 2, Some 30])]\<rparr>"

text \<open>A table whose column \<open>A\<close> holds 1 twice, 2 three times and 3 once.\<close>

definition groups_example :: "nat dataframe" where
  "groups_example =
     \<lparr>columns = [''A''], dtypes = [Int64],
      rows = [(0, [Some 1]), (1, [Some 2]), (2, [Some 1]), (3, [Some 2]),
              (4, [Some 3]), (5, [Some 2])]\<rparr>"

text \<open>A table with one column, named \<open>count\<close>, that holds 1 twice.\<close>

definition count_example :: "nat dataframe" where
  "count_example =
     \<lparr>columns = [''count''], dtypes = [Int64], rows = [(0, [Some 1]), (1, [Some 1])]\<rparr>"

text \<open>A table with eleven different values and a missing one in \<open>id\<close>, three in \<open>grade\<close>.\<close>

definition chart_example :: "nat dataframe" where
  "chart_example =
     \<lparr>columns = [''id'', ''grade''], dtypes = [Float64, Int64],
      rows = [(0, [Some 1, Some 5]), (1, [Some 2, Some 5]), (2, [Some 3, Some 6]),
              (3, [Some 4, Some 6]), (4, [Some 5, Some 7]), (5, [Some 6, Some 7]),
              (6, [Some 7, Some 5]), (7, [Some 8, Some 5]), (8, [Some 9, Some 6]),
              (9, [Some 10, Some 6]), (10, [Some 11, Some 7]), (11, [None, Some 7])]\<rparr>"

text \<open>The widgets as they stand after an upload: nothing selected, nothing clicked.\<close>

definition no_selection :: widgets where
  "no_selection =
     \<lparr>multiselect = [], unique_filename_input = ''lignes_uniques'',
      duplicate_filename_input = ''lignes_dupliquees'', executer = False,
      telecharger_zip = False, selected_col = ''A'', timestamp = ''20240101_120000''\<rparr>"

text \<open>The column \<open>count\<close> selected and the button clicked.\<close>

definition count_selected :: widgets where
  "count_selected =
     \<lparr>multiselect = [''count''], unique_filename_input = ''lignes_uniques'',
      duplicate_filename_input = ''lignes_dupliquees'', executer = True,
      telecharger_zip = False, selected_col = ''count'', timestamp = ''20240101_120000''\<rparr>"

text \<open>Two CSV files of four and three bytes: \<^verbatim>\<open>a\<close>, newline, \<^verbatim>\<open>0xE9\<close> (e acute in Latin-1),
  newline; and \<^verbatim>\<open>A\<close>, newline, \<^verbatim>\<open>1\<close>.\<close>

definition latin1_file :: uploaded_file where
  "latin1_file = \<lparr>file_name = ''donnees.csv'', file_content = [97, 10, 233, 10], file_pos = 0\<rparr>"

definition ascii_file :: uploaded_file where
  "ascii_file = \<lparr>file_name = ''table.csv'', file_content = [65, 10, 49], file_pos = 0\<rparr>"

section \<open>Properties of the library operations\<close>

lemma duplicated_False_loop_length:
  "length (duplicated_False_loop vs i table out) = length out"
  by (induction vs arbitrary: i table out) (auto split: option.splits)

lemma duplicated_False_loop_correct:
  assumes "i = length pre"
    and "length out = length pre + length vs"
    and "\<And>k. table k = None \<Longrightarrow> k \<notin> set pre"
    and "\<And>k p. table k = Some p \<Longrightarrow> p < length pre \<and> pre ! p = k"
    and "\<And>j. j < length pre \<Longrightarrow> out ! j = (\<exists>q<length pre. q \<noteq> j \<and> pre ! q = pre ! j)"
    and "j < length (pre @ vs)"
  shows "duplicated_False_loop vs i table out ! j =
         (\<exists>q<length (pre @ vs). q \<noteq> j \<and> (pre @ vs) ! q = (pre @ vs) ! j)"
  using assms
proof (induction vs arbitrary: pre i table out)
  case Nil
  then show ?case by simp
next
  case (Cons v vs)
  let ?pre = "pre @ [v]"
  show ?case
  proof (cases "table v")
    case None
    have nin: "v \<notin> set pre" using Cons.prems(3) None by blast
    have a1: "Suc i = length ?pre" using Cons.prems(1) by simp
    have a2: "length (out[i := False]) = length ?pre + length vs" using Cons.prems(2) by simp
    have a3: "\<And>k. (table(v \<mapsto> i)) k = None \<Longrightarrow> k \<notin> set ?pre"
      using Cons.prems(3) by (auto split: if_splits)
    have a4: "\<And>k p. (table(v \<mapsto> i)) k = Some p \<Longrightarrow> p < length ?pre \<and> ?pre ! p = k"
      using Cons.prems(4) Cons.prems(1) by (auto simp: nth_append split: if_splits) 
    have a5: "\<And>j. j < length ?pre \<Longrightarrow>
        (out[i := False]) ! j = (\<exists>q<length ?pre. q \<noteq> j \<and> ?pre ! q = ?pre ! j)"
    proof -
      fix j assume j: "j < length ?pre"
      show "(out[i := False]) ! j = (\<exists>q<length ?pre. q \<noteq> j \<and> ?pre ! q = ?pre ! j)"
      proof (cases "j = i")
        case True
        have "\<not> (\<exists>q<length ?pre. q \<noteq> j \<and> ?pre ! q = ?pre ! j)"
          using True Cons.prems(1) nin by (auto simp: nth_append less_Suc_eq)
        moreover have "(out[i := False]) ! j = False"
          using True Cons.prems(1,2) by simp
        ultimately show ?thesis by simp
      next
        case False
        then have jl: "j < length pre" using j Cons.prems(1) by simp
        have "pre ! j \<noteq> v" using nin jl by auto
        then have "(\<exists>q<length ?pre. q \<noteq> j \<and> ?pre ! q = ?pre ! j) =
                   (\<exists>q<length pre. q \<noteq> j \<and> pre ! q = pre ! j)"
          using jl by (auto simp: nth_append less_Suc_eq)
        then show ?thesis using False Cons.prems(5)[OF jl] by simp
      qed
    qed
    have a6: "j < length (?pre @ vs)" using Cons.prems(6) by simp
    have step: "duplicated_False_loop (v # vs) i table out =
        duplicated_False_loop vs (Suc i) (table(v \<mapsto> i)) (out[i := False])"
      using None by simp
    have app: "pre @ v # vs = ?pre @ vs" by simp
    show ?thesis unfolding step app
      by (rule Cons.IH[OF a1 a2 a3 a4 a5 a6])
  next
    case (Some k)
    have kl: "k < length pre" and kv: "pre ! k = v" using Cons.prems(4)[OF Some] by auto
    have a1: "Suc i = length ?pre" using Cons.prems(1) by simp
    have a2: "length (out[k := True, i := True]) = length ?pre + length vs"
      using Cons.prems(2) by simp
    have a3: "\<And>k. table k = None \<Longrightarrow> k \<notin> set ?pre"
      using Cons.prems(3) Some by auto
    have a4: "\<And>k p. table k = Some p \<Longrightarrow> p < length ?pre \<and> ?pre ! p = k"
      using Cons.prems(4) by (fastforce simp: nth_append)
    have a5: "\<And>j. j < length ?pre \<Longrightarrow>
        (out[k := True, i := True]) ! j = (\<exists>q<length ?pre. q \<noteq> j \<and> ?pre ! q = ?pre ! j)"
    proof -
      fix j assume j: "j < length ?pre"
      show "(out[k := True, i := True]) ! j = (\<exists>q<length ?pre. q \<noteq> j \<and> ?pre ! q = ?pre ! j)"
      proof (cases "j = i")
        case True
        have "k < length ?pre \<and> k \<noteq> j \<and> ?pre ! k = ?pre ! j"
          using True kl kv Cons.prems(1) by (simp add: nth_append)
        then have "\<exists>q<length ?pre. q \<noteq> j \<and> ?pre ! q = ?pre ! j" by blast
        moreover have "(out[k := True, i := True]) ! j"
          using True Cons.prems(1,2) by simp
        ultimately show ?thesis by simp
      next
        case False
        then have jl: "j < length pre" using j Cons.prems(1) by simp
        show ?thesis
        proof (cases "pre ! j = v")
          case True
          have "i < length ?pre \<and> i \<noteq> j \<and> ?pre ! i = ?pre ! j"
            using True jl False Cons.prems(1) by (simp add: nth_append)
          then have ex: "\<exists>q<length ?pre. q \<noteq> j \<and> ?pre ! q = ?pre ! j" by blast
          have "(out[k := True, i := True]) ! j"
          proof (cases "j = k")
            case True
            then show ?thesis using False kl Cons.prems(1,2) by simp
          next
            case jk: False
            have "k < length pre \<and> k \<noteq> j \<and> pre ! k = pre ! j" using kl kv True jk by simp
            then have "out ! j" using Cons.prems(5)[OF jl] by blast
            then show ?thesis using False jk by simp
          qed
          then show ?thesis using ex by simp
        next
          case nv: False
          then have jk: "j \<noteq> k" using kv by auto
          have "(\<exists>q<length ?pre. q \<noteq> j \<and> ?pre ! q = ?pre ! j) =
                   (\<exists>q<length pre. q \<noteq> j \<and> pre ! q = pre ! j)"
            using jl nv by (auto simp: nth_append less_Suc_eq)
          then show ?thesis using False jk Cons.prems(5)[OF jl] by simp
        qed
      qed
    qed
    have a6: "j < length (?pre @ vs)" using Cons.prems(6) by simp
    have step: "duplicated_False_loop (v # vs) i table out =
        duplicated_False_loop vs (Suc i) table (out[k := True, i := True])"
      using Some by simp
    have app: "pre @ v # vs = ?pre @ vs" by simp
    show ?thesis unfolding step app
      by (rule Cons.IH[OF a1 a2 a3 a4 a5 a6])
  qed
qed

lemma duplicated_False_length: "length (duplicated_False vs) = length vs"
  by (simp add: duplicated_False_def duplicated_False_loop_length)

lemma duplicated_False_nth:
  assumes "j < length vs"
  shows "duplicated_False vs ! j = (\<exists>q<length vs. q \<noteq> j \<and> vs ! q = vs ! j)"
  using duplicated_False_loop_correct[of 0 "[]" "replicate (length vs) False" vs Map.empty j] assms
  by (simp add: duplicated_False_def)

lemma duplicated_first_loop_length: "length (duplicated_first_loop vs seen) = length vs"
  by (induction vs arbitrary: seen) auto

lemma duplicated_first_loop_nth:
  "i < length vs \<Longrightarrow>
   duplicated_first_loop vs seen ! i = (vs ! i \<in> seen \<or> (\<exists>j<i. vs ! j = vs ! i))"
proof (induction vs arbitrary: seen i)
  case Nil
  then show ?case by simp
next
  case (Cons v vs)
  show ?case
  proof (cases i)
    case 0
    then show ?thesis by simp
  next
    case (Suc k)
    then have k: "k < length vs" using Cons.prems by simp
    have "(\<exists>j<Suc k. (v # vs) ! j = vs ! k) = (v = vs ! k \<or> (\<exists>j<k. vs ! j = vs ! k))"
      by (auto simp: less_Suc_eq_0_disj)
    then show ?thesis using Suc Cons.IH[OF k, of "insert v seen"] by auto
  qed
qed

lemma mask_sum_card: "mask_sum m = card {i. i < length m \<and> m ! i}"
  by (simp add: mask_sum_def length_filter_conv_card)

lemma mask_sum_Cons: "mask_sum (b # m) = (if b then Suc (mask_sum m) else mask_sum m)"
  by (simp add: mask_sum_def)

lemma mask_sum_duplicated_first_loop:
  "mask_sum (duplicated_first_loop vs seen) + card (set vs - seen) = length vs"
proof (induction vs arbitrary: seen)
  case Nil
  show ?case by (simp add: mask_sum_def)
next
  case (Cons v vs)
  have ih: "mask_sum (duplicated_first_loop vs (insert v seen)) + card (set vs - insert v seen)
            = length vs"
    by (rule Cons.IH)
  show ?case
  proof (cases "v \<in> seen")
    case True
    have "set (v # vs) - seen = set vs - insert v seen" using True by auto
    then have c: "card (set (v # vs) - seen) = card (set vs - insert v seen)" by (rule arg_cong)
    have m: "mask_sum (duplicated_first_loop (v # vs) seen) =
             Suc (mask_sum (duplicated_first_loop vs (insert v seen)))"
      using True by (simp only: duplicated_first_loop.simps mask_sum_Cons if_True)
    show ?thesis unfolding c m using ih by simp
  next
    case False
    have e: "set (v # vs) - seen = insert v (set vs - insert v seen)" using False by auto
    have "card (insert v (set vs - insert v seen)) = Suc (card (set vs - insert v seen))"
      by (rule card_insert_disjoint) simp_all
    then have c: "card (set (v # vs) - seen) = Suc (card (set vs - insert v seen))"
      unfolding e .
    have m: "mask_sum (duplicated_first_loop (v # vs) seen) =
             mask_sum (duplicated_first_loop vs (insert v seen))"
      using False by (simp only: duplicated_first_loop.simps mask_sum_Cons if_False)
    show ?thesis unfolding c m using ih by simp
  qed
qed

lemma get_loc_None_iff: "get_loc cs c = None \<longleftrightarrow> c \<notin> set cs"
  by (induction cs) auto

lemma get_loc_Some: "get_loc cs c = Some p \<Longrightarrow> p < length cs \<and> cs ! p = c"
  by (induction cs arbitrary: p) (auto split: if_splits)

lemma those_Some_iff: "(\<exists>ys. those xs = Some ys) \<longleftrightarrow> None \<notin> set xs"
  by (induction xs) (auto split: option.splits)

lemma those_map_the: "those xs = Some ys \<Longrightarrow> ys = map the xs"
  by (induction xs arbitrary: ys) (auto split: option.splits)

lemma getitem_cols_Inr:
  assumes "set cols \<subseteq> set (columns df)"
  shows "\<exists>ps. those (map (get_loc (columns df)) cols) = Some ps \<and>
              getitem_cols df cols =
                Inr \<lparr>columns = cols, dtypes = map (\<lambda>p. dtypes df ! p) ps,
                     rows = map (take_cells ps) (rows df)\<rparr>"
proof -
  have "None \<notin> set (map (get_loc (columns df)) cols)"
  proof
    assume "None \<in> set (map (get_loc (columns df)) cols)"
    then obtain c where "c \<in> set cols" "get_loc (columns df) c = None" by auto
    then show False using assms get_loc_None_iff by fastforce
  qed
  then obtain ps where "those (map (get_loc (columns df)) cols) = Some ps"
    using those_Some_iff by blast
  then show ?thesis by (simp add: getitem_cols_def)
qed

lemma getitem_cols_length:
  "getitem_cols df cols = Inr sel \<Longrightarrow> length (rows sel) = length (rows df)"
  by (auto simp: getitem_cols_def split: option.splits)

lemma loaded_distinct_rows: "loaded df \<Longrightarrow> distinct (rows df)"
proof -
  assume "loaded df"
  then have "distinct (map fst (rows df))" by (simp add: loaded_def)
  then show ?thesis by (rule distinct_map[THEN iffD1, THEN conjunct1])
qed

lemma masked_rows_filter:
  "length m = length xs \<Longrightarrow>
   map fst (filter snd (zip xs m)) = map ((!) xs) (filter (\<lambda>i. m ! i) [0..<length xs])"
proof (induction xs arbitrary: m rule: rev_induct)
  case Nil
  then show ?case by simp
next
  case (snoc x xs)
  then obtain m' b where m: "m = m' @ [b]" and l: "length m' = length xs"
    by (cases m rule: rev_cases) auto
  have "filter (\<lambda>i. (m' @ [b]) ! i) [0..<length xs] = filter (\<lambda>i. m' ! i) [0..<length xs]"
    using l by (intro filter_cong) (auto simp: nth_append)
  moreover have "map ((!) (xs @ [x])) (filter (\<lambda>i. m' ! i) [0..<length xs])
      = map ((!) xs) (filter (\<lambda>i. m' ! i) [0..<length xs])"
    by (intro map_cong) (auto simp: nth_append)
  ultimately show ?case using snoc.IH[OF l] m l by (simp add: nth_append)
qed

lemma mem_masked_rows:
  assumes "distinct xs" "length m = length xs" "i < length xs"
  shows "xs ! i \<in> set (map fst (filter snd (zip xs m))) \<longleftrightarrow> m ! i"
proof -
  have "xs ! i \<in> set (map fst (filter snd (zip xs m))) \<longleftrightarrow>
        (\<exists>j<length xs. m ! j \<and> xs ! j = xs ! i)"
    unfolding masked_rows_filter[OF assms(2)] by (auto simp: image_iff)
  also have "\<dots> \<longleftrightarrow> m ! i"
    using assms(1,3) by (auto simp: nth_eq_iff_index_eq)
  finally show ?thesis .
qed

lemma subseq_masked_rows: "subseq (map fst (filter snd (zip xs m))) xs"
proof (induction xs arbitrary: m)
  case Nil
  then show ?case by simp
next
  case (Cons x xs)
  then show ?case by (cases m) auto
qed

lemma mset_masked_rows:
  "length m = length xs \<Longrightarrow>
   mset (map fst (filter snd (zip xs (map Not m)))) + mset (map fst (filter snd (zip xs m))) = mset xs"
proof (induction xs arbitrary: m)
  case Nil
  then show ?case by simp
next
  case (Cons x xs)
  then show ?case by (cases m) auto
qed

lemma getitem_cols_columns: "getitem_cols df cols = Inr sel \<Longrightarrow> columns sel = cols"
  by (auto simp: getitem_cols_def split: option.splits)

lemma getitem_cols_positions:
  assumes "distinct cs" and "set cols \<subseteq> set cs"
    and "those (map (get_loc cs) cols) = Some ps"
  shows "set ps = {p. p < length cs \<and> cs ! p \<in> set cols}"
proof -
  have ps: "ps = map the (map (get_loc cs) cols)" using assms(3) by (rule those_map_the)
  have loc: "\<exists>p. get_loc cs c = Some p \<and> p < length cs \<and> cs ! p = c" if "c \<in> set cols" for c
  proof -
    have "get_loc cs c \<noteq> None" using that assms(2) get_loc_None_iff by fastforce
    then obtain p where "get_loc cs c = Some p" by auto
    then show ?thesis using get_loc_Some by blast
  qed
  show ?thesis
  proof (rule set_eqI)
    fix p
    show "p \<in> set ps \<longleftrightarrow> p \<in> {p. p < length cs \<and> cs ! p \<in> set cols}"
    proof
      assume "p \<in> set ps"
      then obtain c where c: "c \<in> set cols" and p: "p = the (get_loc cs c)"
        unfolding ps by auto
      obtain q where "get_loc cs c = Some q" "q < length cs" "cs ! q = c" using loc[OF c] by blast
      then show "p \<in> {p. p < length cs \<and> cs ! p \<in> set cols}" using c p by simp
    next
      assume "p \<in> {p. p < length cs \<and> cs ! p \<in> set cols}"
      then have pl: "p < length cs" and pc: "cs ! p \<in> set cols" by auto
      obtain q where q: "get_loc cs (cs ! p) = Some q" "q < length cs" "cs ! q = cs ! p"
        using loc[OF pc] by blast
      then have "q = p" using assms(1) pl by (simp add: nth_eq_iff_index_eq)
      then have "p = the (get_loc cs (cs ! p))" using q(1) by simp
      then show "p \<in> set ps" unfolding ps using pc by auto
    qed
  qed
qed

lemma selected_cells_eq_iff:
  assumes "distinct (columns df)" and "set cols \<subseteq> set (columns df)"
    and "getitem_cols df cols = Inr sel"
    and "i < length (rows df)" and "j < length (rows df)"
  shows "snd (rows sel ! j) = snd (rows sel ! i) \<longleftrightarrow>
         (\<forall>p<length (columns df). columns df ! p \<in> set cols \<longrightarrow>
              snd (rows df ! j) ! p = snd (rows df ! i) ! p)"
proof -
  obtain ps where ps: "those (map (get_loc (columns df)) cols) = Some ps"
    and sel: "rows sel = map (take_cells ps) (rows df)"
    using assms(3) by (auto simp: getitem_cols_def split: option.splits)
  have set_ps: "set ps = {p. p < length (columns df) \<and> columns df ! p \<in> set cols}"
    using assms(1,2) ps by (rule getitem_cols_positions)
  have "snd (rows sel ! j) = map (\<lambda>p. snd (rows df ! j) ! p) ps"
    and "snd (rows sel ! i) = map (\<lambda>p. snd (rows df ! i) ! p) ps"
    using sel assms(4,5) by (simp_all add: take_cells_def)
  then have "snd (rows sel ! j) = snd (rows sel ! i) \<longleftrightarrow>
        (\<forall>p\<in>set ps. snd (rows df ! j) ! p = snd (rows df ! i) ! p)"
    by (simp add: map_eq_conv)
  also have "\<dots> \<longleftrightarrow> (\<forall>p<length (columns df). columns df ! p \<in> set cols \<longrightarrow>
              snd (rows df ! j) ! p = snd (rows df ! i) ! p)"
    unfolding set_ps by auto
  finally show ?thesis .
qed

lemma df_duplicated_keep_False_eq:
  "columns df \<noteq> [] \<Longrightarrow> df_duplicated_keep_False df = duplicated_False (row_keys df)"
  by (simp add: df_duplicated_keep_False_def df_empty_def row_keys_def duplicated_False_def)

lemma df_duplicated_eq:
  "columns df \<noteq> [] \<Longrightarrow> df_duplicated df = duplicated_first (row_keys df)"
  by (simp add: df_duplicated_def df_empty_def row_keys_def duplicated_first_def)

lemma card_ge2_iff:
  assumes "finite S" and "i \<in> S"
  shows "2 \<le> card S \<longleftrightarrow> (\<exists>j\<in>S. j \<noteq> i)"
proof
  assume "2 \<le> card S"
  then have "card (S - {i}) \<ge> 1" using assms by simp
  then have "S - {i} \<noteq> {}" by (metis card.empty not_one_le_zero)
  then show "\<exists>j\<in>S. j \<noteq> i" by blast
next
  assume "\<exists>j\<in>S. j \<noteq> i"
  then obtain j where j: "j \<in> S" "j \<noteq> i" by blast
  then have "{i, j} \<subseteq> S" using assms(2) by blast
  then have "card {i, j} \<le> card S" using assms(1) card_mono by blast
  then show "2 \<le> card S" using j(2) by simp
qed

lemma card_eq1_iff:
  assumes "finite S" and "i \<in> S"
  shows "card S = 1 \<longleftrightarrow> \<not> (\<exists>j\<in>S. j \<noteq> i)"
proof -
  have "0 < card S" using assms by (auto simp: card_gt_0_iff)
  then show ?thesis using card_ge2_iff[OF assms] by linarith
qed

lemma set_insert_desc: "set (insert_desc tie g hs) = insert g (set hs)"
  by (induction hs) auto

lemma sorted_insert_desc:
  "sorted_wrt (\<lambda>a b. snd b \<le> snd a) hs \<Longrightarrow>
   sorted_wrt (\<lambda>a b. snd b \<le> snd a) (insert_desc tie g hs)"
proof (induction hs)
  case Nil
  then show ?case by simp
next
  case (Cons h hs)
  then show ?case by (fastforce simp: set_insert_desc)
qed

lemma sorted_foldr_insert_desc:
  "sorted_wrt (\<lambda>a b. snd b \<le> snd a) (foldr (insert_desc tie) gs [])"
  by (induction gs) (auto intro: sorted_insert_desc)

lemma mset_insert_desc: "mset (insert_desc tie g hs) = add_mset g (mset hs)"
  by (induction hs) auto

lemma mset_foldr_insert_desc: "mset (foldr (insert_desc tie) gs []) = mset gs"
  by (induction gs) (auto simp: mset_insert_desc)

lemma sum_counts_sorted:
  "sum_list (map snd (foldr (insert_desc tie) gs [])) = sum_list (map snd gs)"
proof -
  have "mset (map snd (foldr (insert_desc tie) gs [])) = mset (map snd gs)"
    by (simp add: mset_foldr_insert_desc)
  then show ?thesis by (metis sum_mset_sum_list)
qed

lemma sum_counts_groupby_size:
  "sum_list (map snd (groupby_size ks)) = length (List.map_filter those ks)"
proof -
  let ?vs = "List.map_filter those ks"
  have "sum_list (map snd (groupby_size ks)) = sum_list (map (count_list ?vs) (sort (remdups ?vs)))"
    by (simp add: groupby_size_def Let_def comp_def)
  also have "\<dots> = sum (count_list ?vs) (set (sort (remdups ?vs)))"
    by (intro sum_list_distinct_conv_sum_set) simp
  also have "\<dots> = sum (count_list ?vs) (set ?vs)" by simp
  also have "\<dots> = length ?vs" by (rule sum_count_set) simp_all
  finally show ?thesis .
qed

lemma length_map_filter_those:
  "length (List.map_filter those ks) = length (filter (\<lambda>k. None \<notin> set k) ks)"
  by (simp add: List.map_filter_def those_Some_iff)

lemma insert_desc_insort_key:
  "insert_desc tie g hs = insort_key (\<lambda>a. (- int (snd a), tie (fst a))) g hs"
  by (induction hs) (auto simp: less_eq_prod_def)

lemma foldr_insert_desc_sort_key:
  "foldr (insert_desc tie) gs [] = sort_key (\<lambda>a. (- int (snd a), tie (fst a))) gs"
proof -
  have "insert_desc tie = insort_key (\<lambda>a. (- int (snd a), tie (fst a)))"
    by (intro ext) (rule insert_desc_insort_key)
  then show ?thesis by (simp add: sort_key_def)
qed

lemma length_takeWhile_distinct:
  assumes "distinct xs" and "i < length xs"
  shows "length (takeWhile (\<lambda>x. x \<noteq> xs ! i) xs) = i"
proof -
  have "takeWhile (\<lambda>x. x \<noteq> xs ! i) xs = take i xs"
  proof (rule takeWhile_eq_take_P_nth)
    fix j assume "j < i" "j < length xs"
    then show "xs ! j \<noteq> xs ! i" using assms by (simp add: nth_eq_iff_index_eq)
  next
    show "\<not> xs ! i \<noteq> xs ! i" by simp
  qed
  then show ?thesis using assms(2) by simp
qed

text \<open>
  The parameter \<open>tie\<close> leaves the library every choice it has: any arrangement of the
  groups by falling count is what the model returns for some rank.
\<close>

lemma every_tie_order_is_some_rank:
  assumes "distinct (map fst gs)" and "mset ts = mset gs"
    and "sorted_wrt (\<lambda>a b. snd b \<le> snd a) ts"
  shows "\<exists>tie. foldr (insert_desc tie) gs [] = ts"
proof -
  define tie where "tie k = length (takeWhile (\<lambda>x. x \<noteq> k) (map fst ts))" for k
  define key where "key a = (- int (snd a), tie (fst a))" for a :: "'a \<times> nat"
  have "mset (map fst ts) = mset (map fst gs)" using assms(2) by simp
  then have dk: "distinct (map fst ts)" using assms(1) by (metis mset_eq_imp_distinct_iff)
  have tie_nth: "tie (fst (ts ! i)) = i" if "i < length ts" for i
    using length_takeWhile_distinct[OF dk, of i] that by (simp add: tie_def)
  have sorted_ts: "sorted (map key ts)"
    unfolding sorted_wrt_iff_nth_less
  proof (intro allI impI)
    fix i j assume ij: "i < j" "j < length (map key ts)"
    then have "snd (ts ! j) \<le> snd (ts ! i)"
      using assms(3) by (simp add: sorted_wrt_iff_nth_less)
    then show "map key ts ! i \<le> map key ts ! j"
      using ij tie_nth by (simp add: key_def less_eq_prod_def)
  qed
  have inj: "inj_on key (set ts)"
  proof (rule inj_onI)
    fix a b assume a: "a \<in> set ts" and b: "b \<in> set ts" and e: "key a = key b"
    obtain i j where i: "i < length ts" "ts ! i = a" and j: "j < length ts" "ts ! j = b"
      using a b by (auto simp: in_set_conv_nth)
    have "tie (fst a) = tie (fst b)" using e by (simp add: key_def)
    then have "i = j" using tie_nth[OF i(1)] tie_nth[OF j(1)] i(2) j(2) by simp
    then show "a = b" using i j by simp
  qed
  have dts: "distinct ts" using dk by (rule distinct_map[THEN iffD1, THEN conjunct1])
  have d1: "distinct (map key ts)" using dts inj by (simp add: distinct_map)
  let ?r = "sort_key key gs"
  have mr: "mset ?r = mset ts" using assms(2) by simp
  have sr: "set ?r = set ts" using mr by (metis set_mset_mset)
  have dr: "distinct ?r" using mr dts by (metis mset_eq_imp_distinct_iff)
  have d2: "distinct (map key ?r)" using dr inj sr by (simp add: distinct_map)
  have s2: "sorted (map key ?r)" by (rule sorted_sort_key)
  have "?r = ts"
    using inj sr s2 d2 sorted_ts d1
    by (intro map_sorted_distinct_set_unique[of key]) simp_all
  moreover have "key = (\<lambda>a. (- int (snd a), tie (fst a)))"
    by (intro ext) (simp add: key_def)
  ultimately have "foldr (insert_desc tie) gs [] = ts"
    by (simp add: foldr_insert_desc_sort_key)
  then show ?thesis by blast
qed

lemma groupby_size_distinct_keys: "distinct (map fst (groupby_size ks))"
  by (simp add: groupby_size_def Let_def comp_def)

lemma every_order_of_the_summary_is_modelled:
  assumes "mset ts = mset (groupby_size ks)"
    and "sorted_wrt (\<lambda>a b. snd b \<le> snd a) ts"
  shows "\<exists>tie. summary_rows (sort_values_count_desc tie
            \<lparr>summary_columns = names, summary_rows = groupby_size ks\<rparr>) = ts"
proof -
  obtain tie where "foldr (insert_desc tie) (groupby_size ks) [] = ts"
    using every_tie_order_is_some_rank[OF groupby_size_distinct_keys assms] by blast
  then show ?thesis by (auto simp: sort_values_count_desc_def)
qed

lemma nunique_card: "nunique xs = card {v. Some v \<in> set xs}"
proof -
  have "set (List.map_filter (\<lambda>c. c) xs) = {v. Some v \<in> set xs}"
    by (auto simp: List.map_filter_def image_iff) (metis option.sel)
  then show ?thesis
    by (simp add: nunique_def length_remdups_card_conv)
qed

section \<open>The classification\<close>

lemma is_duplicate_nth:
  assumes "getitem_cols df cols = Inr sel" "i < length (rows df)"
  shows "duplicated_False (row_keys sel) ! i =
         (\<exists>j<length (rows df). j \<noteq> i \<and> snd (rows sel ! j) = snd (rows sel ! i))"
proof -
  have l: "length (rows sel) = length (rows df)" using assms(1) by (rule getitem_cols_length)
  have "duplicated_False (row_keys sel) ! i =
        (\<exists>q<length (row_keys sel). q \<noteq> i \<and> row_keys sel ! q = row_keys sel ! i)"
    using assms(2) l by (intro duplicated_False_nth) (simp add: row_keys_def)
  then show ?thesis using l assms(2) by (auto simp: row_keys_def)
qed

lemma classification_defined:
  assumes "cols \<noteq> []" and "set cols \<subseteq> set (columns df)"
  shows "\<exists>sel. getitem_cols df cols = Inr sel \<and>
     is_duplicate df cols = Inr (duplicated_False (row_keys sel)) \<and>
     unique_rows df cols = Inr (getitem_mask df (invert (duplicated_False (row_keys sel)))) \<and>
     duplicate_rows df cols = Inr (getitem_mask df (duplicated_False (row_keys sel))) \<and>
     length (duplicated_False (row_keys sel)) = length (rows df)"
proof -
  obtain sel where s: "getitem_cols df cols = Inr sel"
    using getitem_cols_Inr[OF assms(2)] by blast
  have "columns sel \<noteq> []" using s assms(1) getitem_cols_columns by fastforce
  then have e: "df_duplicated_keep_False sel = duplicated_False (row_keys sel)"
    by (rule df_duplicated_keep_False_eq)
  have "length (rows sel) = length (rows df)" using s by (rule getitem_cols_length)
  then show ?thesis using s e
    by (simp add: is_duplicate_def unique_rows_def duplicate_rows_def
        duplicated_False_length row_keys_def)
qed

text \<open>The example of the specification, evaluated.\<close>

lemma spec_example_classification:
  "unique_rows spec_example [''A''] = Inr (spec_example\<lparr>rows := [(2, [Some 2, Some 20])]\<rparr>) \<and>
   duplicate_rows spec_example [''A''] =
     Inr (spec_example\<lparr>rows := [(0, [Some 1, Some 10]), (1, [Some 1, Some 10]),
                                (3, [Some 1, Some 30])]\<rparr>) \<and>
   duplicate_groups tie spec_example [''A''] =
     Inr \<lparr>summary_columns = [''A'', ''count''], summary_rows = [([1], 3)]\<rparr>"
  by (simp add: unique_rows_def duplicate_groups_def duplicate_rows_def is_duplicate_def
      getitem_cols_def spec_example_def take_cells_def row_keys_def duplicated_False_def
      getitem_mask_def invert_def groupby_size_def reset_index_count_def
      sort_values_count_desc_def List.map_filter_def df_duplicated_keep_False_def df_empty_def)

text \<open>
  Claim C1. For a loaded table and a non-empty selection of existing columns, the row
  at position \<open>i\<close> is in \<open>duplicate_rows\<close> exactly when some other row of the table has
  the same cell as row \<open>i\<close> in every selected column of the table, that is exactly when
  at least two rows of the table agree with row \<open>i\<close> on the selected columns (so every
  member of such a group, the first one too); it is in \<open>unique_rows\<close> exactly when row
  \<open>i\<close> is the only such row. The cells compared are those of the table itself, at the
  positions of the selected column names.
\<close>

theorem duplicate_rows_iff_other_row:
  assumes "loaded df" and "selected_cols \<noteq> []"
    and "set selected_cols \<subseteq> set (columns df)" and "i < length (rows df)"
  shows "\<exists>u d. unique_rows df selected_cols = Inr u \<and> duplicate_rows df selected_cols = Inr d \<and>
      (rows df ! i \<in> set (rows d) \<longleftrightarrow>
        (\<exists>j<length (rows df). j \<noteq> i \<and>
           (\<forall>p<length (columns df). columns df ! p \<in> set selected_cols \<longrightarrow>
                snd (rows df ! j) ! p = snd (rows df ! i) ! p))) \<and>
      (rows df ! i \<in> set (rows d) \<longleftrightarrow>
        2 \<le> card {j. j < length (rows df) \<and>
           (\<forall>p<length (columns df). columns df ! p \<in> set selected_cols \<longrightarrow>
                snd (rows df ! j) ! p = snd (rows df ! i) ! p)}) \<and>
      (rows df ! i \<in> set (rows u) \<longleftrightarrow>
        card {j. j < length (rows df) \<and>
           (\<forall>p<length (columns df). columns df ! p \<in> set selected_cols \<longrightarrow>
                snd (rows df ! j) ! p = snd (rows df ! i) ! p)} = 1)"
proof -
  obtain sel where s: "getitem_cols df selected_cols = Inr sel"
    and u: "unique_rows df selected_cols =
            Inr (getitem_mask df (invert (duplicated_False (row_keys sel))))"
    and d: "duplicate_rows df selected_cols = Inr (getitem_mask df (duplicated_False (row_keys sel)))"
    and l: "length (duplicated_False (row_keys sel)) = length (rows df)"
    using classification_defined[OF assms(2,3)] by blast
  let ?m = "duplicated_False (row_keys sel)"
  let ?same = "\<lambda>j. \<forall>p<length (columns df). columns df ! p \<in> set selected_cols \<longrightarrow>
                snd (rows df ! j) ! p = snd (rows df ! i) ! p"
  let ?S = "{j. j < length (rows df) \<and> ?same j}"
  have dc: "distinct (columns df)" using assms(1) by (simp add: loaded_def)
  have dist: "distinct (rows df)" using assms(1) by (rule loaded_distinct_rows)
  have same: "snd (rows sel ! j) = snd (rows sel ! i) \<longleftrightarrow> ?same j" if "j < length (rows df)" for j
    using selected_cells_eq_iff[OF dc assms(3) s assms(4) that] .
  have "?m ! i = (\<exists>j<length (rows df). j \<noteq> i \<and> snd (rows sel ! j) = snd (rows sel ! i))"
    using s assms(4) by (rule is_duplicate_nth)
  then have m: "?m ! i = (\<exists>j<length (rows df). j \<noteq> i \<and> ?same j)"
    using same by auto
  have fin: "finite ?S" by simp
  have iS: "i \<in> ?S" using assms(4) by simp
  have "(\<exists>j\<in>?S. j \<noteq> i) = (\<exists>j<length (rows df). j \<noteq> i \<and> ?same j)" by auto
  then have c2: "(2 \<le> card ?S) = ?m ! i" and c1: "(card ?S = 1) = (\<not> ?m ! i)"
    using card_ge2_iff[OF fin iS] card_eq1_iff[OF fin iS] m by simp_all
  have ind: "rows df ! i \<in> set (rows (getitem_mask df ?m)) \<longleftrightarrow> ?m ! i"
    using mem_masked_rows[OF dist l assms(4)] by (simp add: getitem_mask_def)
  have inu: "rows df ! i \<in> set (rows (getitem_mask df (invert ?m))) \<longleftrightarrow> \<not> ?m ! i"
    using mem_masked_rows[OF dist _ assms(4), of "invert ?m"] l assms(4)
    by (simp add: getitem_mask_def invert_def)
  have "(rows df ! i \<in> set (rows (getitem_mask df ?m)) \<longleftrightarrow>
           (\<exists>j<length (rows df). j \<noteq> i \<and> ?same j)) \<and>
        (rows df ! i \<in> set (rows (getitem_mask df ?m)) \<longleftrightarrow> 2 \<le> card ?S) \<and>
        (rows df ! i \<in> set (rows (getitem_mask df (invert ?m))) \<longleftrightarrow> card ?S = 1)"
    using ind inu m c2 c1 by blast
  then show ?thesis using u d by blast
qed

theorem duplicate_rows_iff_other_row_witness:
  "loaded spec_example \<and> [''A''] \<noteq> [] \<and> set [''A''] \<subseteq> set (columns spec_example) \<and>
   (3::nat) < length (rows spec_example) \<and>
   rows spec_example ! 3 = (3, [Some 1, Some 30]) \<and>
   duplicate_rows spec_example [''A''] =
     Inr (spec_example\<lparr>rows := [(0, [Some 1, Some 10]), (1, [Some 1, Some 10]),
                                (3, [Some 1, Some 30])]\<rparr>) \<and>
   (\<exists>j<length (rows spec_example). j \<noteq> 3 \<and>
      (\<forall>p<length (columns spec_example). columns spec_example ! p \<in> set [''A''] \<longrightarrow>
           snd (rows spec_example ! j) ! p = snd (rows spec_example ! 3) ! p)) \<and>
   2 \<le> card {j. j < length (rows spec_example) \<and>
      (\<forall>p<length (columns spec_example). columns spec_example ! p \<in> set [''A''] \<longrightarrow>
           snd (rows spec_example ! j) ! p = snd (rows spec_example ! 3) ! p)}"
proof -
  have h1: "loaded spec_example" by (simp add: loaded_def spec_example_def upt_rec)
  have h2: "[''A''] \<noteq> []" by simp
  have h3: "set [''A''] \<subseteq> set (columns spec_example)" by (simp add: spec_example_def)
  have h4: "(3::nat) < length (rows spec_example)" by (simp add: spec_example_def)
  have r: "rows spec_example ! 3 = (3, [Some 1, Some 30])" by (simp add: spec_example_def)
  have d: "duplicate_rows spec_example [''A''] =
     Inr (spec_example\<lparr>rows := [(0, [Some 1, Some 10]), (1, [Some 1, Some 10]),
                                (3, [Some 1, Some 30])]\<rparr>)"
    by (simp add: duplicate_rows_def is_duplicate_def getitem_cols_def spec_example_def
        take_cells_def row_keys_def duplicated_False_def getitem_mask_def
        df_duplicated_keep_False_def df_empty_def)
  have m: "rows spec_example ! 3 \<in>
      set (rows (spec_example\<lparr>rows := [(0, [Some 1, Some 10]), (1, [Some 1, Some 10]),
                                (3, [Some 1, Some 30])]\<rparr>))"
    unfolding r by simp
  from duplicate_rows_iff_other_row[OF h1 h2 h3 h4] d m
  have "(\<exists>j<length (rows spec_example). j \<noteq> 3 \<and>
      (\<forall>p<length (columns spec_example). columns spec_example ! p \<in> set [''A''] \<longrightarrow>
           snd (rows spec_example ! j) ! p = snd (rows spec_example ! 3) ! p)) \<and>
   2 \<le> card {j. j < length (rows spec_example) \<and>
      (\<forall>p<length (columns spec_example). columns spec_example ! p \<in> set [''A''] \<longrightarrow>
           snd (rows spec_example ! j) ! p = snd (rows spec_example ! 3) ! p)}"
    by auto
  then show ?thesis using h1 h2 h3 h4 r d by blast
qed

text \<open>
  Claim C2. For a loaded table and a non-empty selection of existing columns,
  \<open>unique_rows\<close> and \<open>duplicate_rows\<close> split the rows of the table: their lengths add up
  to the table's, no index label is in both, every row of the table is in one of them
  and none in both.
\<close>

theorem unique_and_duplicate_rows_partition:
  assumes "loaded df" and "selected_cols \<noteq> []"
    and "set selected_cols \<subseteq> set (columns df)"
  shows "\<exists>u d. unique_rows df selected_cols = Inr u \<and> duplicate_rows df selected_cols = Inr d \<and>
      length (rows u) + length (rows d) = length (rows df) \<and>
      set (map fst (rows u)) \<inter> set (map fst (rows d)) = {} \<and>
      set (rows u) \<union> set (rows d) = set (rows df) \<and>
      set (rows u) \<inter> set (rows d) = {} \<and>
      mset (rows u) + mset (rows d) = mset (rows df)"
proof -
  obtain sel where s: "getitem_cols df selected_cols = Inr sel"
    and u: "unique_rows df selected_cols =
            Inr (getitem_mask df (invert (duplicated_False (row_keys sel))))"
    and d: "duplicate_rows df selected_cols = Inr (getitem_mask df (duplicated_False (row_keys sel)))"
    and l: "length (duplicated_False (row_keys sel)) = length (rows df)"
    using classification_defined[OF assms(2,3)] by blast
  let ?m = "duplicated_False (row_keys sel)"
  let ?u = "rows (getitem_mask df (invert ?m))" and ?d = "rows (getitem_mask df ?m)"
  have ms: "mset ?u + mset ?d = mset (rows df)"
    using mset_masked_rows[OF l] by (simp add: getitem_mask_def invert_def)
  have len: "length ?u + length ?d = length (rows df)"
    using ms by (metis size_mset size_union)
  have un: "set ?u \<union> set ?d = set (rows df)"
    using ms by (metis set_mset_mset set_mset_union)
  have "distinct (map fst (rows df))" using assms(1) by (simp add: loaded_def)
  then have "distinct (map fst (?u @ ?d))"
    using ms by (metis distinct_map mset_append mset_eq_imp_distinct_iff mset_map)
  then have lab: "set (map fst ?u) \<inter> set (map fst ?d) = {}" by simp
  then have dj: "set ?u \<inter> set ?d = {}" by auto
  show ?thesis using u d ms len un lab dj by simp
qed

theorem unique_and_duplicate_rows_partition_witness:
  "loaded spec_example \<and> [''A''] \<noteq> [] \<and> set [''A''] \<subseteq> set (columns spec_example) \<and>
   (\<exists>u d. unique_rows spec_example [''A''] = Inr u \<and> duplicate_rows spec_example [''A''] = Inr d \<and>
      length (rows u) + length (rows d) = length (rows spec_example) \<and>
      set (map fst (rows u)) \<inter> set (map fst (rows d)) = {} \<and>
      set (rows u) \<union> set (rows d) = set (rows spec_example) \<and>
      set (rows u) \<inter> set (rows d) = {} \<and>
      mset (rows u) + mset (rows d) = mset (rows spec_example))"
proof -
  have h1: "loaded spec_example" by (simp add: loaded_def spec_example_def upt_rec)
  have h2: "[''A''] \<noteq> []" by simp
  have h3: "set [''A''] \<subseteq> set (columns spec_example)" by (simp add: spec_example_def)
  show ?thesis
    using unique_and_duplicate_rows_partition[OF h1 h2 h3] h1 h2 h3 by blast
qed



text \<open>
  Claim C7. Both outputs have the columns of the table, all of them, and their rows
  are rows of the table, whole and in the table's order. The functions are pure: the
  table they are given is not changed.
\<close>

theorem outputs_keep_columns_and_order:
  assumes "selected_cols \<noteq> []" and "set selected_cols \<subseteq> set (columns df)"
  shows "\<exists>u d. unique_rows df selected_cols = Inr u \<and> duplicate_rows df selected_cols = Inr d \<and>
      columns u = columns df \<and> columns d = columns df \<and>
      subseq (rows u) (rows df) \<and> subseq (rows d) (rows df)"
proof -
  obtain sel where s: "getitem_cols df selected_cols = Inr sel"
    and u: "unique_rows df selected_cols =
            Inr (getitem_mask df (invert (duplicated_False (row_keys sel))))"
    and d: "duplicate_rows df selected_cols = Inr (getitem_mask df (duplicated_False (row_keys sel)))"
    using classification_defined[OF assms] by blast
  show ?thesis using u d by (simp add: getitem_mask_def subseq_masked_rows)
qed

theorem outputs_keep_columns_and_order_witness:
  "[''A''] \<noteq> [] \<and> set [''A''] \<subseteq> set (columns spec_example) \<and>
   (\<exists>u d. unique_rows spec_example [''A''] = Inr u \<and> duplicate_rows spec_example [''A''] = Inr d \<and>
      columns u = columns spec_example \<and> columns d = columns spec_example \<and>
      subseq (rows u) (rows spec_example) \<and> subseq (rows d) (rows spec_example))"
proof -
  have h2: "[''A''] \<noteq> []" by simp
  have h3: "set [''A''] \<subseteq> set (columns spec_example)" by (simp add: spec_example_def)
  show ?thesis
    using outputs_keep_columns_and_order[OF h2 h3] h2 h3 by blast
qed

section \<open>The whole-row duplicate count\<close>

text \<open>
  Claim C3 as stated fails on the specification's own example: rows 0 and 1 are equal
  in all columns, the classification over all columns puts both in \<open>duplicate_rows\<close>,
  and the views show 1.
\<close>

theorem whole_row_count_counterexample:
  "duplicate_rows spec_example (columns spec_example) =
     Inr (spec_example\<lparr>rows := [(0, [Some 1, Some 10]), (1, [Some 1, Some 10])]\<rparr>) \<and>
   length (filter (\<lambda>k. 2 \<le> count_list (row_keys spec_example) k) (row_keys spec_example)) = 2 \<and>
   total_duplicates spec_example = 1 \<and>
   data_overview spec_example ! 3 = Metric Lignes_dupliquees 1 \<and>
   anomaly_analysis spec_example ! 0 = Metric Nombre_total_de_doublons 1"
  by (simp add: duplicate_rows_def is_duplicate_def getitem_cols_def spec_example_def take_cells_def
      row_keys_def duplicated_False_def getitem_mask_def total_duplicates_def duplicated_first_def
      mask_sum_def data_overview_def anomaly_analysis_def df_duplicated_def
      df_duplicated_keep_False_def df_empty_def)

text \<open>
  Claim C3, as the code has it. For a table with at least one column the number both
  views show is the number of rows that repeat an earlier row of the table in all
  columns: of every group of equal rows all members but the first are counted. It is
  the number of rows less the number of different rows.
\<close>

theorem whole_row_count_keeps_first:
  assumes "columns df \<noteq> []"
  shows "total_duplicates df =
     card {i. i < length (rows df) \<and> (\<exists>j<i. snd (rows df ! j) = snd (rows df ! i))} \<and>
   total_duplicates df + card (set (row_keys df)) = length (rows df) \<and>
   data_overview df ! 3 = Metric Lignes_dupliquees (total_duplicates df) \<and>
   anomaly_analysis df ! 0 = Metric Nombre_total_de_doublons (total_duplicates df)"
proof -
  have td: "total_duplicates df = mask_sum (duplicated_first (row_keys df))"
    using assms by (simp add: total_duplicates_def df_duplicated_eq)
  let ?ks = "row_keys df"
  let ?m = "duplicated_first ?ks"
  have l: "length ?ks = length (rows df)" by (simp add: row_keys_def)
  have lm: "length ?m = length (rows df)"
    using l by (simp add: duplicated_first_def duplicated_first_loop_length)
  have nth: "?m ! i = (\<exists>j<i. snd (rows df ! j) = snd (rows df ! i))"
    if i: "i < length (rows df)" for i
  proof -
    have "?m ! i = (\<exists>j<i. ?ks ! j = ?ks ! i)"
      using i l by (simp add: duplicated_first_def duplicated_first_loop_nth)
    moreover have "?ks ! j = snd (rows df ! j)" if "j \<le> i" for j
      using i that by (simp add: row_keys_def)
    ultimately show ?thesis by auto
  qed
  have "(i < length ?m \<and> ?m ! i) =
        (i < length (rows df) \<and> (\<exists>j<i. snd (rows df ! j) = snd (rows df ! i)))" for i
  proof (cases "i < length (rows df)")
    case True
    then show ?thesis using nth[OF True] lm by simp
  next
    case False
    then show ?thesis using lm by simp
  qed
  then have "{i. i < length ?m \<and> ?m ! i} =
        {i. i < length (rows df) \<and> (\<exists>j<i. snd (rows df ! j) = snd (rows df ! i))}"
    by (rule Collect_cong)
  then have a: "total_duplicates df =
     card {i. i < length (rows df) \<and> (\<exists>j<i. snd (rows df ! j) = snd (rows df ! i))}"
    unfolding td mask_sum_card by (rule arg_cong)
  have "mask_sum ?m + card (set ?ks - {}) = length ?ks"
    unfolding duplicated_first_def by (rule mask_sum_duplicated_first_loop)
  then have b: "total_duplicates df + card (set ?ks) = length (rows df)"
    unfolding td using l by simp
  have c: "data_overview df ! 3 = Metric Lignes_dupliquees (total_duplicates df)"
    by (simp add: data_overview_def total_duplicates_def)
  have d: "anomaly_analysis df ! 0 = Metric Nombre_total_de_doublons (total_duplicates df)"
    by (simp add: anomaly_analysis_def)
  show ?thesis using a b c d by (intro conjI)
qed

theorem whole_row_count_witness:
  "columns spec_example \<noteq> [] \<and> total_duplicates spec_example = 1 \<and>
   card {i. i < length (rows spec_example) \<and>
            (\<exists>j<i. snd (rows spec_example ! j) = snd (rows spec_example ! i))} = 1 \<and>
   card (set (row_keys spec_example)) = 3 \<and>
   data_overview spec_example ! 3 = Metric Lignes_dupliquees 1 \<and>
   anomaly_analysis spec_example ! 0 = Metric Nombre_total_de_doublons 1"
proof -
  have h: "columns spec_example \<noteq> []" by (simp add: spec_example_def)
  have t: "total_duplicates spec_example = 1"
    by (simp add: total_duplicates_def df_duplicated_def df_empty_def duplicated_first_def
        row_keys_def mask_sum_def spec_example_def)
  have l: "length (rows spec_example) = 4" by (simp add: spec_example_def)
  show ?thesis using whole_row_count_keeps_first[OF h] h t l by simp
qed

text \<open>A table without columns is empty for the library: the count is 0.\<close>

lemma whole_row_count_no_columns:
  "columns df = [] \<Longrightarrow> total_duplicates df = 0"
  by (simp add: total_duplicates_def df_duplicated_def df_empty_def mask_sum_def)

section \<open>The summary of the groups\<close>

lemma duplicate_groups_cases:
  assumes "selected_cols \<noteq> []" and "set selected_cols \<subseteq> set (columns df)"
  shows "\<exists>d dsel. duplicate_rows df selected_cols = Inr d \<and> getitem_cols d selected_cols = Inr dsel \<and>
      length (rows dsel) = length (rows d) \<and>
      duplicate_groups tie df selected_cols =
        (if ''count'' \<in> set selected_cols then Inl ValueError
         else Inr \<lparr>summary_columns = selected_cols @ [''count''],
                   summary_rows = foldr (insert_desc tie) (groupby_size (row_keys dsel)) []\<rparr>)"
proof -
  obtain sel where s: "getitem_cols df selected_cols = Inr sel"
    and d: "duplicate_rows df selected_cols = Inr (getitem_mask df (duplicated_False (row_keys sel)))"
    using classification_defined[OF assms] by blast
  let ?d = "getitem_mask df (duplicated_False (row_keys sel))"
  have "set selected_cols \<subseteq> set (columns ?d)" using assms(2) by (simp add: getitem_mask_def)
  then obtain dsel where ds: "getitem_cols ?d selected_cols = Inr dsel"
    using getitem_cols_Inr by blast
  have l: "length (rows dsel) = length (rows ?d)" using ds by (rule getitem_cols_length)
  show ?thesis using d ds l
    by (simp add: duplicate_groups_def reset_index_count_def sort_values_count_desc_def)
qed

text \<open>
  Claim C6 fails where a selected column is named \<open>count\<close>. In \<open>count_example\<close> both rows
  are duplicates of each other; \<^verbatim>\<open>reset_index(name='count')\<close> at line 200 finds the name
  taken and raises \<^verbatim>\<open>ValueError\<close>: no summary is produced, sorted or not, and
  \<^verbatim>\<open>duplicate_analysis\<close> ends with the exception after the two tables are shown.
\<close>

theorem count_column_raises_ValueError:
  "duplicate_rows count_example [''count''] = Inr count_example \<and>
   duplicate_groups tie count_example [''count''] = Inl ValueError \<and>
   duplicate_analysis tie count_example count_selected =
     ([Metric Total_des_lignes 2, Metric Lignes_avec_combinaisons_uniques 0,
       Metric Lignes_avec_combinaisons_dupliquees 2, Show_rows count_example],
      Inl ValueError)"
proof -
  have d: "duplicate_rows count_example [''count''] = Inr count_example"
    by (simp add: duplicate_rows_def is_duplicate_def getitem_cols_def count_example_def
        take_cells_def row_keys_def df_duplicated_keep_False_def df_empty_def
        duplicated_False_def getitem_mask_def)
  have u: "unique_rows count_example [''count''] = Inr (count_example\<lparr>rows := []\<rparr>)"
    by (simp add: unique_rows_def is_duplicate_def getitem_cols_def count_example_def
        take_cells_def row_keys_def df_duplicated_keep_False_def df_empty_def
        duplicated_False_def getitem_mask_def invert_def)
  have g: "duplicate_groups tie count_example [''count''] = Inl ValueError"
    using d by (simp add: duplicate_groups_def getitem_cols_def count_example_def
        reset_index_count_def)
  have l: "length (rows count_example) = 2" by (simp add: count_example_def)
  have h: "head 100 count_example = count_example" by (simp add: head_def count_example_def)
  have "duplicate_analysis tie count_example count_selected =
     ([Metric Total_des_lignes 2, Metric Lignes_avec_combinaisons_uniques 0,
       Metric Lignes_avec_combinaisons_dupliquees 2, Show_rows count_example],
      Inl ValueError)"
    by (simp add: duplicate_analysis_def count_selected_def d u g l h show_first_100_def)
  then show ?thesis using d g by simp
qed

text \<open>
  For every other non-empty selection of existing columns the summary is produced and
  its counts never increase from one entry to the next, whatever the order of the ties.
\<close>

lemma summary_sorted_without_count_column:
  assumes "selected_cols \<noteq> []" and "set selected_cols \<subseteq> set (columns df)"
    and "''count'' \<notin> set selected_cols"
  shows "\<exists>g. duplicate_groups tie df selected_cols = Inr g \<and>
            sorted_wrt (\<lambda>a b. snd b \<le> snd a) (summary_rows g) \<and>
            (\<forall>i. Suc i < length (summary_rows g) \<longrightarrow>
                 snd (summary_rows g ! Suc i) \<le> snd (summary_rows g ! i))"
proof -
  obtain d dsel where g: "duplicate_groups tie df selected_cols =
      Inr \<lparr>summary_columns = selected_cols @ [''count''],
           summary_rows = foldr (insert_desc tie) (groupby_size (row_keys dsel)) []\<rparr>"
    using duplicate_groups_cases[OF assms(1,2), of tie] assms(3) by auto
  let ?rs = "foldr (insert_desc tie) (groupby_size (row_keys dsel)) []"
  have s: "sorted_wrt (\<lambda>a b. snd b \<le> snd a) ?rs" by (rule sorted_foldr_insert_desc)
  have "\<forall>i. Suc i < length ?rs \<longrightarrow> snd (?rs ! Suc i) \<le> snd (?rs ! i)"
    using s by (simp add: sorted_wrt_iff_nth_less)
  then show ?thesis using g s by simp
qed

lemma groups_example_summary:
  "duplicate_groups (\<lambda>k. 0) groups_example [''A''] =
     Inr \<lparr>summary_columns = [''A'', ''count''], summary_rows = [([2], 3), ([1], 2)]\<rparr>"
  by (simp add: duplicate_groups_def duplicate_rows_def is_duplicate_def
      getitem_cols_def groups_example_def take_cells_def row_keys_def duplicated_False_def
      getitem_mask_def groupby_size_def reset_index_count_def
      sort_values_count_desc_def List.map_filter_def df_duplicated_keep_False_def df_empty_def)

text \<open>
  Claim C4 fails where a selected cell is missing. In \<open>missing_example\<close> the rows 0 and 1
  are both missing in column \<open>A\<close>: both are in \<open>duplicate_rows\<close>, and the summary has no
  group at all, so its counts add up to 0 and not to 2.
\<close>

theorem summary_drops_missing_keys:
  "duplicate_rows missing_example [''A''] =
     Inr (missing_example\<lparr>rows := [(0, [None, Some 10]), (1, [None, Some 20])]\<rparr>) \<and>
   duplicate_groups tie missing_example [''A''] =
     Inr \<lparr>summary_columns = [''A'', ''count''], summary_rows = []\<rparr>"
  by (simp add: duplicate_groups_def duplicate_rows_def is_duplicate_def getitem_cols_def
      missing_example_def take_cells_def row_keys_def duplicated_False_def getitem_mask_def
      groupby_size_def reset_index_count_def sort_values_count_desc_def List.map_filter_def
      df_duplicated_keep_False_def df_empty_def)

text \<open>
  What the counts of the summary do add up to: the number of rows of \<open>duplicate_rows\<close>
  with no missing cell in the selected columns.
\<close>

lemma summary_counts_rows_without_missing:
  assumes "selected_cols \<noteq> []" and "set selected_cols \<subseteq> set (columns df)"
    and "''count'' \<notin> set selected_cols"
  shows "\<exists>d dsel g. duplicate_rows df selected_cols = Inr d \<and>
      getitem_cols d selected_cols = Inr dsel \<and> duplicate_groups tie df selected_cols = Inr g \<and>
      sum_list (map snd (summary_rows g)) =
        length (filter (\<lambda>k. None \<notin> set k) (row_keys dsel))"
proof -
  obtain d dsel where d: "duplicate_rows df selected_cols = Inr d"
    and ds: "getitem_cols d selected_cols = Inr dsel"
    and g: "duplicate_groups tie df selected_cols =
      Inr \<lparr>summary_columns = selected_cols @ [''count''],
           summary_rows = foldr (insert_desc tie) (groupby_size (row_keys dsel)) []\<rparr>"
    using duplicate_groups_cases[OF assms(1,2), of tie] assms(3) by auto
  show ?thesis using d ds g
    by (simp add: sum_counts_sorted sum_counts_groupby_size length_map_filter_those)
qed

text \<open>
  When the button is clicked on a non-empty selection of existing columns, none of
  them named \<open>count\<close>, \<^verbatim>\<open>duplicate_analysis\<close> returns the two outputs of the classification.
\<close>

lemma duplicate_analysis_executed:
  assumes "multiselect w \<noteq> []" and "executer w"
    and "set (multiselect w) \<subseteq> set (columns df)" and "''count'' \<notin> set (multiselect w)"
  shows "\<exists>u d. unique_rows df (multiselect w) = Inr u \<and> duplicate_rows df (multiselect w) = Inr d \<and>
     snd (duplicate_analysis tie df w) =
       Inr (Tuple5 (Some u) (Some d) True
              (Some (unique_filename_input w)) (Some (duplicate_filename_input w)))"
proof -
  obtain sel u d where u: "unique_rows df (multiselect w) = Inr u"
    and d: "duplicate_rows df (multiselect w) = Inr d"
    using classification_defined[OF assms(1,3)] by blast
  obtain g where g: "duplicate_groups tie df (multiselect w) = Inr g"
    using duplicate_groups_cases[OF assms(1,3), of tie] assms(4) by auto
  show ?thesis using assms(1,2) u d g by (simp add: duplicate_analysis_def Let_def)
qed

section \<open>The empty selection\<close>

text \<open>
  Claim C8. With nothing selected \<^verbatim>\<open>duplicate_analysis\<close> shows the warning and returns the
  tuple \<^verbatim>\<open>(None, None, False)\<close> without classifying anything. That tuple has three
  entries: \<^verbatim>\<open>main\<close> finds its length different from five and unpacks it into two names,
  which raises \<^verbatim>\<open>ValueError\<close>. The run ends there, before \<^verbatim>\<open>visualizations\<close>.
\<close>

theorem empty_selection_ends_in_ValueError:
  assumes "multiselect w = []"
  shows "duplicate_analysis tie (df :: ('v::linorder) dataframe) w =
           ([Warning_select_column], Inr (Tuple3 None None False)) \<and>
         main_tab3 tie df w = ([Warning_select_column], Some ValueError) \<and>
         main tie (read_excel :: 'v dataframe reader) read_csv_enc (Some f) w =
           (case fst (load_data read_excel read_csv_enc f) of
              (_, Some error) \<Rightarrow> ([Error_loading error], None)
            | (None, None) \<Rightarrow> ([], None)
            | (Some t, None) \<Rightarrow>
                (Success_loaded # data_overview t @ anomaly_analysis t @ [Warning_select_column],
                 Some ValueError))"
proof -
  have a: "\<And>t::'v dataframe. duplicate_analysis tie t w = ([Warning_select_column], Inr (Tuple3 None None False))"
    using assms by (simp add: duplicate_analysis_def)
  have b: "\<And>t::'v dataframe. main_tab3 tie t w = ([Warning_select_column], Some ValueError)"
    by (simp add: main_tab3_def a)
  show ?thesis using a b
    by (simp add: main_def split: prod.splits option.splits)
qed

theorem empty_selection_witness:
  "multiselect no_selection = [] \<and>
   duplicate_analysis (\<lambda>k. 0) spec_example no_selection =
     ([Warning_select_column], Inr (Tuple3 None None False)) \<and>
   main_tab3 (\<lambda>k. 0) spec_example no_selection =
     ([Warning_select_column], Some ValueError) \<and>
   main (\<lambda>k. 0) (\<lambda>bs. (Inr spec_example, length bs)) (read_csv (\<lambda>enc bs. Inr spec_example))
        (Some ascii_file) no_selection =
     (Success_loaded # data_overview spec_example @ anomaly_analysis spec_example @
        [Warning_select_column], Some ValueError)"
proof -
  have h: "multiselect no_selection = []" by (simp add: no_selection_def)
  have l: "fst (load_data (\<lambda>bs. (Inr spec_example, length bs))
             (read_csv (\<lambda>enc bs. Inr spec_example)) ascii_file) = (Some spec_example, None)"
    by (simp add: load_data_def handlers_def call_reader_def read_csv_def
        file_extension_def lower_def ascii_file_def)
  show ?thesis
    using empty_selection_ends_in_ValueError[OF h, of "\<lambda>k. 0" spec_example
        "\<lambda>bs. (Inr spec_example, length bs)" "read_csv (\<lambda>enc bs. Inr spec_example)" ascii_file]
      h l by simp
qed

section \<open>The fallback to Latin-1\<close>

text \<open>
  The control flow of \<^verbatim>\<open>load_data\<close> for a \<^verbatim>\<open>.csv\<close> name: UTF-8 first; Latin-1 exactly when
  that raised \<^verbatim>\<open>UnicodeDecodeError\<close>, on the file as the first attempt left it; a table
  when an attempt succeeds, a message otherwise.
\<close>

lemma load_data_csv:
  assumes "file_extension f = ''csv''"
  shows "load_data read_excel read_csv_enc f =
     (case call_reader (read_csv_enc UTF8) f of
        (Inr t, f') \<Rightarrow> ((Some t, None), f')
      | (Inl e, f') \<Rightarrow>
          if e = UnicodeDecodeError then
            (case call_reader (read_csv_enc Latin1) f' of
               (Inr t, f'') \<Rightarrow> ((Some t, None), f'')
             | (Inl e', f'') \<Rightarrow> ((None, Some (Erreur_encodage e')), f''))
          else ((None, Some (Erreur_chargement e)), f'))"
  using assms by (simp add: load_data_def handlers_def retry_latin1_def split: prod.splits sum.splits)

text \<open>
  Claim C9 on the file \<open>latin1_file\<close>. Its bytes are not UTF-8, the first attempt raises
  \<^verbatim>\<open>UnicodeDecodeError\<close> with the buffer read to its end, and the retry, which does not
  rewind, finds no bytes: \<^verbatim>\<open>load_data\<close> returns the message of \<^verbatim>\<open>EmptyDataError\<close>. Read as
  Latin-1 from position 0 the same file is handed to the parser whole.
\<close>

theorem latin1_retry_reads_from_the_end:
  "load_data read_excel (read_csv parse) latin1_file =
     ((None, Some (Erreur_encodage EmptyDataError)), latin1_file\<lparr>file_pos := 4\<rparr>) \<and>
   call_reader (read_csv parse Latin1) latin1_file =
     (parse Latin1 [97, 10, 233, 10], latin1_file\<lparr>file_pos := 4\<rparr>)"
  by (simp add: load_data_def handlers_def retry_latin1_def call_reader_def read_csv_def
      file_extension_def lower_def latin1_file_def)

section \<open>The chart types\<close>

text \<open>
  Claim C10. For a table that is not empty and a chosen column, the view offers
  histogram, box plot and violin plot exactly when the column's dtype is \<^verbatim>\<open>int64\<close> or
  \<^verbatim>\<open>float64\<close> and the column has more than ten different values that are not missing;
  in every other case it offers bar chart and pie chart.
\<close>

theorem numeric_charts_iff_dtype_and_more_than_10_values:
  assumes "\<not> df_empty df" and "selected_col w \<noteq> []"
    and "get_loc (columns df) (selected_col w) = Some p"
  shows "visualizations df w =
     (if dtypes df ! p \<in> {Int64, Float64} \<and>
         10 < card {v. \<exists>r \<in> set (rows df). snd r ! p = Some v}
      then ([Select_graph_type [Histogramme, Box_Plot, Violin_Plot]], None)
      else ([Select_graph_type [Bar_Chart, Pie_Chart]], None))"
proof -
  have d: "(dtype_name (dtypes df ! p) \<in> set [''int64'', ''float64'']) =
           (dtypes df ! p \<in> {Int64, Float64})"
    by (cases "dtypes df ! p") simp_all
  have "{v. Some v \<in> set (map (\<lambda>r. snd r ! p) (rows df))} =
        {v. \<exists>r \<in> set (rows df). snd r ! p = Some v}"
    by (auto simp: image_iff) force+
  then have n: "nunique (map (\<lambda>r. snd r ! p) (rows df)) =
        card {v. \<exists>r \<in> set (rows df). snd r ! p = Some v}"
    by (simp add: nunique_card)
  have "is_numeric df (selected_col w) =
        Inr (dtypes df ! p \<in> {Int64, Float64} \<and>
             10 < card {v. \<exists>r \<in> set (rows df). snd r ! p = Some v})"
    using assms(3) d n by (simp add: is_numeric_def getitem_col_def)
  then show ?thesis using assms(1,2) by (simp add: visualizations_def)
qed

theorem numeric_charts_witness:
  "\<not> df_empty chart_example \<and> selected_col (no_selection\<lparr>selected_col := ''id''\<rparr>) \<noteq> [] \<and>
   get_loc (columns chart_example) ''id'' = Some 0 \<and>
   get_loc (columns chart_example) ''grade'' = Some 1 \<and>
   visualizations chart_example (no_selection\<lparr>selected_col := ''id''\<rparr>) =
     ([Select_graph_type [Histogramme, Box_Plot, Violin_Plot]], None) \<and>
   visualizations chart_example (no_selection\<lparr>selected_col := ''grade''\<rparr>) =
     ([Select_graph_type [Bar_Chart, Pie_Chart]], None) \<and>
   10 < card {v. \<exists>r \<in> set (rows chart_example). snd r ! 0 = Some v}"
proof -
  let ?w = "no_selection\<lparr>selected_col := ''id''\<rparr>"
  have h1: "\<not> df_empty chart_example" by (simp add: df_empty_def chart_example_def)
  have h2: "selected_col ?w \<noteq> []" by simp
  have h3: "get_loc (columns chart_example) (selected_col ?w) = Some 0"
    by (simp add: chart_example_def)
  have h4: "get_loc (columns chart_example) ''grade'' = Some 1"
    by (simp add: chart_example_def)
  have v: "visualizations chart_example ?w =
     ([Select_graph_type [Histogramme, Box_Plot, Violin_Plot]], None)"
    by (simp add: visualizations_def is_numeric_def getitem_col_def nunique_def
        List.map_filter_def df_empty_def chart_example_def)
  have v2: "visualizations chart_example (no_selection\<lparr>selected_col := ''grade''\<rparr>) =
     ([Select_graph_type [Bar_Chart, Pie_Chart]], None)"
    by (simp add: visualizations_def is_numeric_def getitem_col_def nunique_def
        List.map_filter_def df_empty_def chart_example_def)
  have "10 < card {v. \<exists>r \<in> set (rows chart_example). snd r ! 0 = Some v}"
    using numeric_charts_iff_dtype_and_more_than_10_values[OF h1 h2 h3] v
    by (simp split: if_splits)
  then show ?thesis using h1 h2 h3 h4 v v2 by simp
qed

end
